theory Spec2Isabelle
  imports Main "HOL-Library.Sublist"
begin

section \<open>The template renderer of \<^verbatim>\<open>devops/nginx/render_config.py\<close>\<close>

text \<open>
  The script has one function of substance, \<^verbatim>\<open>render_template\<close>. It reads an optional
  \<^verbatim>\<open>.env\<close> file into \<^verbatim>\<open>os.environ\<close>, replaces every \<^verbatim>\<open>${{NAME}}\<close> of the template by the
  value of the environment variable \<^verbatim>\<open>NAME\<close>, and writes the result to a path that is
  either given or derived from the template's path.

  Python strings are modelled as \<^typ>\<open>string\<close>; a \<^typ>\<open>char\<close> stands for a code point
  below 256. The state the function touches is a record: the environment, the files,
  the paths that can be written, and the two output streams, each a list of the lines
  printed so far.
\<close>

subsection \<open>State and errors\<close>

record world =
  environ :: "string \<rightharpoonup> string"
  files :: "string \<rightharpoonup> string"
  writable :: "string \<Rightarrow> bool"
  stdout :: "string list"
  stderr :: "string list"

text \<open>
  \<open>files\<close> maps a path to the text of the file there, as text mode delivers it; a path
  outside its domain does not exist. \<open>writable\<close> holds of the paths that
  \<^verbatim>\<open>open(path, 'w')\<close> opens: the directory of the path exists, the path is no
  directory, and the permissions allow it.

  \<open>OSError\<close> stands for the exception class with its subclasses, among them
  \<^verbatim>\<open>FileNotFoundError\<close>.
\<close>

datatype error = ValueError | OSError

text \<open>
  A statement that may raise returns the exception or its value, together with the
  state at that moment.
\<close>

type_synonym 'a run = "world \<Rightarrow> (error + 'a) \<times> world"

subsection \<open>String methods\<close>

text \<open>
  \<^verbatim>\<open>str.strip()\<close> removes the characters for which \<^verbatim>\<open>str.isspace()\<close> holds from both
  ends. Below code point 256 these are the ASCII white space (tab, line feed, vertical
  tab, form feed, carriage return, space), the separators \<^verbatim>\<open>0x1C\<close> to \<^verbatim>\<open>0x1F\<close>, next line
  \<^verbatim>\<open>0x85\<close> and the no-break space \<^verbatim>\<open>0xA0\<close>.
\<close>

definition isspace :: "char \<Rightarrow> bool" where
  "isspace c \<longleftrightarrow>
     c \<in> {CHR 0x09, CHR 0x0A, CHR 0x0B, CHR 0x0C, CHR 0x0D, CHR 0x1C, CHR 0x1D,
          CHR 0x1E, CHR 0x1F, CHR 0x20, CHR 0x85, CHR 0xA0}"

definition strip :: "string \<Rightarrow> string" where
  "strip s = rev (dropWhile isspace (rev (dropWhile isspace s)))"

text \<open>\<^verbatim>\<open>s.startswith(p)\<close> is \<^term>\<open>prefix p s\<close>. \<^verbatim>\<open>sub in s\<close> is the substring test.\<close>

fun str_contains :: "string \<Rightarrow> string \<Rightarrow> bool" where
  "str_contains sub [] \<longleftrightarrow> sub = []"
| "str_contains sub (c # cs) \<longleftrightarrow> prefix sub (c # cs) \<or> str_contains sub cs"

text \<open>
  \<^verbatim>\<open>line.split('=', 1)\<close> on a line that contains the separator returns two parts, the
  text before the first separator and the text after it. The script calls it under the
  guard \<^verbatim>\<open>'=' in line\<close> only, so the tuple assignment \<^verbatim>\<open>key, value = ...\<close> always gets
  its two parts.
\<close>

definition split1 :: "char \<Rightarrow> string \<Rightarrow> string \<times> string" where
  "split1 sep s = (takeWhile (\<lambda>c. c \<noteq> sep) s, drop 1 (dropWhile (\<lambda>c. c \<noteq> sep) s))"

text \<open>
  \<^verbatim>\<open>s.replace(old, new)\<close> without a count replaces every occurrence of \<open>old\<close>, found
  from left to right without overlap. With an empty \<open>old\<close> it puts \<open>new\<close> before every
  character and at the end.
\<close>

function str_replace :: "string \<Rightarrow> string \<Rightarrow> string \<Rightarrow> string" where
  "str_replace old new [] = (if old = [] then new else [])"
| "str_replace old new (c # cs) =
     (if old = [] then new @ c # str_replace old new cs
      else if prefix old (c # cs) then new @ str_replace old new (drop (length old) (c # cs))
      else c # str_replace old new cs)"
  by pat_completeness auto
termination
  by (relation "measure (\<lambda>(old, new, s). length s)") auto

text \<open>
  Iterating over a text file yields its lines, each with its line feed; the last line
  may lack one.
\<close>

fun readlines :: "string \<Rightarrow> string list" where
  "readlines [] = []"
| "readlines (c # cs) =
     (if c = CHR 0x0A then [c] # readlines cs
      else case readlines cs of [] \<Rightarrow> [c] # [] | l # ls \<Rightarrow> (c # l) # ls)"

subsection \<open>Loading the \<^verbatim>\<open>.env\<close> file (lines 17 to 25)\<close>

text \<open>
  \<^verbatim>\<open>os.environ[key] = value\<close> hands the pair to \<^verbatim>\<open>putenv\<close>. It raises \<^verbatim>\<open>ValueError\<close>
  for an embedded null character and for a name that contains \<^verbatim>\<open>=\<close>, and \<^verbatim>\<open>OSError\<close>
  for an empty name, which the system call refuses. The mapping is updated only after
  \<^verbatim>\<open>putenv\<close> has returned.
\<close>

definition environ_setitem :: "string \<Rightarrow> string \<Rightarrow> unit run" where
  "environ_setitem key value w =
     (if CHR 0x00 \<in> set key \<or> CHR 0x00 \<in> set value \<or> CHR ''='' \<in> set key
      then (Inl ValueError, w)
      else if key = [] then (Inl OSError, w)
      else (Inr (), w\<lparr>environ := (environ w)(key \<mapsto> value)\<rparr>))"

text \<open>The pairs that \<^verbatim>\<open>putenv\<close> takes.\<close>

definition putenv_ok :: "string \<Rightarrow> string \<Rightarrow> bool" where
  "putenv_ok key value \<longleftrightarrow>
     CHR 0x00 \<notin> set key \<and> CHR 0x00 \<notin> set value \<and> key \<noteq> [] \<and> CHR ''='' \<notin> set key"

text \<open>
  Lines 20 to 22: the line is stripped; a line that is empty, starts with \<^verbatim>\<open>#\<close> or has
  no \<^verbatim>\<open>=\<close> yields nothing, any other line yields its key and value.
\<close>

definition parse_line :: "string \<Rightarrow> (string \<times> string) option" where
  "parse_line raw =
     (let line = strip raw in
      if line \<noteq> [] \<and> \<not> prefix ''#'' line \<and> CHR ''='' \<in> set line
      then Some (split1 (CHR ''='') line)
      else None)"

text \<open>The body of the loop, lines 20 to 25.\<close>

definition load_line :: "string \<Rightarrow> unit run" where
  "load_line raw w =
     (case parse_line raw of
        None \<Rightarrow> (Inr (), w)
      | Some (key, value) \<Rightarrow>
          if key \<notin> dom (environ w) then environ_setitem key value w else (Inr (), w))"

text \<open>The loop, line 19: an exception ends it.\<close>

fun load_lines :: "string list \<Rightarrow> unit run" where
  "load_lines [] w = (Inr (), w)"
| "load_lines (raw # raws) w =
     (case load_line raw w of
        (Inl e, w') \<Rightarrow> (Inl e, w')
      | (Inr _, w') \<Rightarrow> load_lines raws w')"

text \<open>
  Line 17: the file is read when \<^verbatim>\<open>env_file\<close> is neither \<^verbatim>\<open>None\<close> nor empty and the path
  exists.
\<close>

definition load_supplementary_variables :: "string option \<Rightarrow> unit run" where
  "load_supplementary_variables env_file w =
     (case env_file of
        None \<Rightarrow> (Inr (), w)
      | Some path \<Rightarrow>
          if path = [] then (Inr (), w)
          else case files w path of
                 None \<Rightarrow> (Inr (), w)
               | Some text \<Rightarrow> load_lines (readlines text) w)"

subsection \<open>Substituting the placeholders (lines 32 to 45)\<close>

text \<open>
  The pattern is \<^verbatim>\<open>\$\{\{([A-Z_][A-Z0-9_]*)\}\}\<close>: the three characters \<^verbatim>\<open>${{\<close>, a name, and
  the two characters \<^verbatim>\<open>}}\<close>.
\<close>

definition name_start :: "char \<Rightarrow> bool" where
  "name_start c \<longleftrightarrow> c \<in> set ''ABCDEFGHIJKLMNOPQRSTUVWXYZ_''"

definition name_char :: "char \<Rightarrow> bool" where
  "name_char c \<longleftrightarrow> name_start c \<or> c \<in> set ''0123456789''"

definition strip_prefix :: "string \<Rightarrow> string \<Rightarrow> string option" where
  "strip_prefix p s = (if prefix p s then Some (drop (length p) s) else None)"

text \<open>
  \<open>match_at s\<close> tries the pattern at the start of \<open>s\<close> and returns group 0, group 1 and
  the text after the match. The star is greedy: it takes the longest run of name
  characters. A shorter run would be followed by a name character, never by \<^verbatim>\<open>}\<close>, so
  backtracking finds no other match.
\<close>

definition match_at :: "string \<Rightarrow> (string \<times> string \<times> string) option" where
  "match_at s =
     (case strip_prefix ''${{'' s of
        None \<Rightarrow> None
      | Some [] \<Rightarrow> None
      | Some (c # cs) \<Rightarrow>
          if name_start c then
            (case strip_prefix ''}}'' (dropWhile name_char cs) of
               None \<Rightarrow> None
             | Some rest \<Rightarrow>
                 let name = c # takeWhile name_char cs
                 in Some (''${{'' @ name @ ''}}'', name, rest))
          else None)"

text \<open>The line that \<^verbatim>\<open>replace_var\<close> prints for a missing variable.\<close>

definition warning :: "string \<Rightarrow> string" where
  "warning var_name =
     ''Warning: Environment variable '' @ [CHR 0x27] @ var_name @ [CHR 0x27] @
     '' not found, leaving as-is''"

text \<open>\<^verbatim>\<open>replace_var\<close>, lines 34 to 42; the match is the pair of group 0 and group 1.\<close>

definition replace_var :: "string \<times> string \<Rightarrow> world \<Rightarrow> string \<times> world" where
  "replace_var m w =
     (let var_name = snd m in
      case environ w var_name of
        None \<Rightarrow> (fst m, w\<lparr>stderr := stderr w @ [warning var_name]\<rparr>)
      | Some v \<Rightarrow> (v, w))"

text \<open>
  The language of the pattern, stated apart from the matcher: a name is a name start
  followed by name characters, and a placeholder is a name between the delimiters.
\<close>

definition valid_name :: "string \<Rightarrow> bool" where
  "valid_name n \<longleftrightarrow> (case n of [] \<Rightarrow> False | c # cs \<Rightarrow> name_start c \<and> list_all name_char cs)"

definition placeholder :: "string \<Rightarrow> string" where
  "placeholder n = ''${{'' @ n @ ''}}''"

lemma strip_prefix_Some: "strip_prefix p s = Some r \<longleftrightarrow> s = p @ r"
  by (auto simp: strip_prefix_def prefix_def)

lemma not_name_char [simp]: "\<not> name_char (CHR ''}'')" "\<not> name_char (CHR ''$'')"
  by (simp_all add: name_char_def name_start_def)

lemma match_at_Some_iff:
  "match_at s = Some (g0, g1, rest) \<longleftrightarrow>
     valid_name g1 \<and> g0 = placeholder g1 \<and> s = g0 @ rest"
proof
  assume "match_at s = Some (g0, g1, rest)"
  then obtain c cs where s: "s = ''${{'' @ c # cs" and c: "name_start c"
    and d: "dropWhile name_char cs = ''}}'' @ rest"
    and g1: "g1 = c # takeWhile name_char cs" and g0: "g0 = ''${{'' @ g1 @ ''}}''"
    by (auto simp: match_at_def strip_prefix_Some Let_def
             split: option.splits list.splits if_splits)
  have "cs = takeWhile name_char cs @ ''}}'' @ rest"
    using takeWhile_dropWhile_id [of name_char cs] d by simp
  moreover have "list_all name_char (takeWhile name_char cs)"
    by (simp add: list_all_iff) (meson set_takeWhileD)
  ultimately show "valid_name g1 \<and> g0 = placeholder g1 \<and> s = g0 @ rest"
    using s c g1 g0 by (simp add: valid_name_def placeholder_def)
next
  assume a: "valid_name g1 \<and> g0 = placeholder g1 \<and> s = g0 @ rest"
  then obtain c n where g1: "g1 = c # n" and c: "name_start c" and n: "list_all name_char n"
    by (auto simp: valid_name_def split: list.splits)
  have s: "s = ''${{'' @ c # (n @ ''}}'' @ rest)"
    using a g1 by (simp add: placeholder_def)
  have t: "takeWhile name_char (n @ ''}}'' @ rest) = n"
    using n by (simp add: list_all_iff)
  have d: "dropWhile name_char (n @ ''}}'' @ rest) = ''}}'' @ rest"
    using n by (simp add: list_all_iff)
  have "strip_prefix ''${{'' s = Some (c # (n @ ''}}'' @ rest))"
    unfolding strip_prefix_Some using s by simp
  moreover have "strip_prefix ''}}'' (''}}'' @ rest) = Some rest"
    unfolding strip_prefix_Some by simp
  ultimately show "match_at s = Some (g0, g1, rest)"
    using c t d a g1 by (simp add: match_at_def placeholder_def Let_def del: append.simps)
qed

lemma match_at_shorter: "match_at s = Some (g0, g1, rest) \<Longrightarrow> length rest < length s"
  by (simp add: match_at_Some_iff placeholder_def)

text \<open>
  \<^verbatim>\<open>re.sub(pattern, replace_var, content)\<close>, line 45: at each position the pattern is
  tried; where it matches, the value of the callback is appended and the scan goes on
  after the match; elsewhere the character is copied. The value of a callback is used
  as it is.
\<close>

function re_sub :: "string \<Rightarrow> world \<Rightarrow> string \<times> world" where
  "re_sub [] w = ([], w)"
| "re_sub (c # cs) w =
     (case match_at (c # cs) of
        None \<Rightarrow> (let (out, w') = re_sub cs w in (c # out, w'))
      | Some (g0, g1, rest) \<Rightarrow>
          (let (v, w1) = replace_var (g0, g1) w;
               (out, w2) = re_sub rest w1
           in (v @ out, w2)))"
  by pat_completeness auto
termination
  by (relation "measure (\<lambda>(s, w). length s)") (auto dest: match_at_shorter)

definition substitute :: "string \<Rightarrow> world \<Rightarrow> string \<times> world" where
  "substitute content w = re_sub content w"

subsection \<open>The output path (lines 48 to 52)\<close>

definition derive_output_path :: "string option \<Rightarrow> string \<Rightarrow> string" where
  "derive_output_path output_file template_file =
     (case output_file of
        Some path \<Rightarrow> path
      | None \<Rightarrow>
          if str_contains ''-template'' template_file
          then str_replace ''-template'' '''' template_file
          else str_replace ''.template'' '''' template_file)"

subsection \<open>The whole function\<close>

text \<open>
  Opening a missing template raises \<^verbatim>\<open>FileNotFoundError\<close>, and so does opening an
  empty output path; an output path that cannot be written raises an \<^verbatim>\<open>OSError\<close> of
  some kind. Writing replaces the file's text. The last line printed names both
  paths.
\<close>

definition render_template :: "string \<Rightarrow> string option \<Rightarrow> string option \<Rightarrow> string run" where
  "render_template template_file output_file env_file w =
     (case load_supplementary_variables env_file w of
        (Inl e, w1) \<Rightarrow> (Inl e, w1)
      | (Inr _, w1) \<Rightarrow>
          (case files w1 template_file of
             None \<Rightarrow> (Inl OSError, w1)
           | Some content \<Rightarrow>
               let (rendered, w2) = substitute content w1;
                   out = derive_output_path output_file template_file
               in if out = [] \<or> \<not> writable w2 out then (Inl OSError, w2)
                  else (Inr out,
                        w2\<lparr>files := (files w2)(out \<mapsto> rendered),
                           stdout := stdout w2 @
                             [''Template rendered: '' @ template_file @ '' -> '' @ out]\<rparr>)))"

subsection \<open>Notions used in the statements\<close>

text \<open>
  What a run of \<open>substitute\<close> returns, and the lines it adds to the error stream.
\<close>

definition rendered :: "string \<Rightarrow> world \<Rightarrow> string" where
  "rendered content w = fst (substitute content w)"

definition diagnostics :: "string \<Rightarrow> world \<Rightarrow> string list" where
  "diagnostics content w = drop (length (stderr w)) (stderr (snd (substitute content w)))"

text \<open>\<^verbatim>\<open>re.search(pattern, s) is not None\<close>: the pattern matches somewhere in \<open>s\<close>.\<close>

fun has_match :: "string \<Rightarrow> bool" where
  "has_match [] \<longleftrightarrow> False"
| "has_match (c # cs) \<longleftrightarrow> match_at (c # cs) \<noteq> None \<or> has_match cs"

text \<open>\<^verbatim>\<open>sep.join(segs)\<close>: a path is cut at the occurrences of a marker into segments.\<close>

fun join :: "string \<Rightarrow> string list \<Rightarrow> string" where
  "join sep [] = []"
| "join sep [s] = s"
| "join sep (s # t # ss) = s @ sep @ join sep (t # ss)"

text \<open>
  The derivation of the output path as the specification words it: the first
  occurrence of the marker is removed, the later ones stay. This is not what the
  script computes; it is here to be compared with \<^const>\<open>derive_output_path\<close>.
\<close>

fun remove_first :: "string \<Rightarrow> string \<Rightarrow> string" where
  "remove_first m [] = []"
| "remove_first m (c # cs) =
     (if prefix m (c # cs) then drop (length m) (c # cs) else c # remove_first m cs)"

text \<open>A line is accepted when it yields nothing or a pair that \<^verbatim>\<open>putenv\<close> takes.\<close>

definition accepted :: "string \<Rightarrow> bool" where
  "accepted raw \<longleftrightarrow>
     (case parse_line raw of None \<Rightarrow> True | Some (key, value) \<Rightarrow> putenv_ok key value)"

text \<open>Two states for the examples.\<close>

definition w_empty :: world where
  "w_empty =
     \<lparr>environ = Map.empty, files = Map.empty, writable = (\<lambda>path. True),
      stdout = [], stderr = []\<rparr>"

definition w_demo :: world where
  "w_demo =
     \<lparr>environ = [''HOST'' \<mapsto> ''${{PORT}}'', ''PORT'' \<mapsto> ''8080''],
      files = [''.env'' \<mapsto> ''PORT=1'' @ [CHR 0x0A] @ ''NAME=a=b'' @ [CHR 0x0A]],
      writable = (\<lambda>path. True), stdout = [], stderr = [''earlier'']\<rparr>"

lemmas scan_defs = rendered_def diagnostics_def substitute_def match_at_def strip_prefix_def
  name_start_def name_char_def replace_var_def valid_name_def

lemmas load_defs = load_supplementary_variables_def load_line_def parse_line_def strip_def
  isspace_def split1_def environ_setitem_def putenv_ok_def accepted_def

section \<open>Properties\<close>

subsection \<open>Strings\<close>

lemma str_contains_iff: "str_contains p s \<longleftrightarrow> (\<exists>a b. s = a @ p @ b)"
proof (induction s)
  case Nil
  then show ?case by auto
next
  case (Cons c cs)
  show ?case
  proof
    assume "str_contains p (c # cs)"
    then consider "prefix p (c # cs)" | "str_contains p cs" by auto
    then show "\<exists>a b. c # cs = a @ p @ b"
    proof cases
      case 1
      then obtain b where "c # cs = p @ b" by (auto simp: prefix_def)
      then have "c # cs = [] @ p @ b" by simp
      then show ?thesis by blast
    next
      case 2
      then obtain a b where "cs = a @ p @ b" using Cons.IH by blast
      then have "c # cs = (c # a) @ p @ b" by simp
      then show ?thesis by blast
    qed
  next
    assume "\<exists>a b. c # cs = a @ p @ b"
    then obtain a b where ab: "c # cs = a @ p @ b" by blast
    show "str_contains p (c # cs)"
    proof (cases a)
      case Nil
      then have "prefix p (c # cs)" using ab by (metis append_Nil prefixI)
      then show ?thesis by simp
    next
      case (Cons x a')
      then have "cs = a' @ p @ b" using ab by simp
      then show ?thesis using Cons.IH by auto
    qed
  qed
qed

lemma str_replace_absent:
  "old \<noteq> [] \<Longrightarrow> \<not> str_contains old s \<Longrightarrow> str_replace old new s = s"
  by (induction s) auto

text \<open>
  A marker whose first character does not come back later in it cannot start inside a
  segment and run into the marker that follows the segment.
\<close>

lemma prefix_across:
  assumes m: "m \<noteq> []" "hd m \<notin> set (tl m)"
    and np: "\<not> prefix m (c # s)"
  shows "\<not> prefix m (c # s @ m @ t)"
proof
  assume "prefix m (c # s @ m @ t)"
  then have "prefix m ((c # s) @ (m @ t))" by simp
  then obtain us where us: "m = (c # s) @ us" "prefix us (m @ t)"
    using np unfolding prefix_append by blast
  have "us \<noteq> []" using us(1) np by auto
  have "length us < length m" using us(1) by simp
  then have "prefix us m" using us(2) unfolding prefix_append by auto
  then have "hd us = hd m" using \<open>us \<noteq> []\<close> by (auto simp: prefix_def)
  moreover have "hd us \<in> set (tl m)" using us(1) \<open>us \<noteq> []\<close> by simp
  ultimately show False using m(2) by simp
qed

lemma str_replace_across:
  assumes m: "m \<noteq> []" "hd m \<notin> set (tl m)"
  shows "\<not> str_contains m s \<Longrightarrow> str_replace m new (s @ m @ t) = s @ new @ str_replace m new t"
proof (induction s)
  case Nil
  then show ?case using m(1) by (cases m) simp_all
next
  case (Cons c s)
  then have "\<not> prefix m (c # s)" "\<not> str_contains m s" by auto
  then show ?case using prefix_across [OF m, of c s t] Cons.IH m(1) by simp
qed

lemma str_replace_join:
  "m \<noteq> [] \<Longrightarrow> hd m \<notin> set (tl m) \<Longrightarrow> \<forall>s \<in> set segs. \<not> str_contains m s \<Longrightarrow>
     str_replace m [] (join m segs) = concat segs"
proof (induction m segs rule: join.induct)
  case (1 sep)
  then show ?case by simp
next
  case (2 sep s)
  then show ?case by (simp add: str_replace_absent)
next
  case (3 sep s t ss)
  then show ?case using str_replace_across [of sep s "[]" "join sep (t # ss)"] by simp
qed

lemma join_contains: "2 \<le> length segs \<Longrightarrow> str_contains m (join m segs)"
proof -
  assume "2 \<le> length segs"
  then obtain s t ss where "segs = s # t # ss"
    by (metis One_nat_def Suc_1 Suc_le_length_iff)
  then show ?thesis by (auto simp: str_contains_iff)
qed

lemma set_strip: "set (strip s) \<subseteq> set s"
  unfolding strip_def by (auto dest!: set_dropWhileD)

lemma dropWhile_keeps: "x \<in> set xs \<Longrightarrow> \<not> P x \<Longrightarrow> x \<in> set (dropWhile P xs)"
  by (induction xs) auto

lemma strip_keeps: "c \<in> set s \<Longrightarrow> \<not> isspace c \<Longrightarrow> c \<in> set (strip s)"
  unfolding strip_def by (simp add: dropWhile_keeps)

subsection \<open>The loop over the lines\<close>

lemma load_line_keeps:
  "environ w k = Some v \<Longrightarrow> environ (snd (load_line raw w)) k = Some v"
  by (auto simp: load_line_def environ_setitem_def split: option.splits)

lemma load_lines_keeps:
  "environ w k = Some v \<Longrightarrow> environ (snd (load_lines raws w)) k = Some v"
proof (induction raws arbitrary: w)
  case Nil
  then show ?case by simp
next
  case (Cons raw raws)
  obtain r w' where step: "load_line raw w = (r, w')" by (cases "load_line raw w")
  then have "environ w' k = Some v"
    using load_line_keeps [OF Cons.prems, of raw] by simp
  then show ?case using step Cons.IH [of w'] by (cases r) simp_all
qed

lemma load_line_other:
  "\<forall>v. parse_line raw \<noteq> Some (k, v) \<Longrightarrow> environ (snd (load_line raw w)) k = environ w k"
  by (auto simp: load_line_def environ_setitem_def split: option.splits)

lemma load_lines_other:
  "\<forall>raw \<in> set raws. \<forall>v. parse_line raw \<noteq> Some (k, v) \<Longrightarrow>
     environ (snd (load_lines raws w)) k = environ w k"
proof (induction raws arbitrary: w)
  case Nil
  then show ?case by simp
next
  case (Cons raw raws)
  obtain r w' where step: "load_line raw w = (r, w')" by (cases "load_line raw w")
  then have "environ w' k = environ w k"
    using load_line_other [of raw k w] Cons.prems by simp
  then show ?case using step Cons.IH [of w'] Cons.prems by (cases r) simp_all
qed

lemma load_line_accepted: "accepted raw \<Longrightarrow> fst (load_line raw w) = Inr ()"
  by (auto simp: accepted_def load_line_def environ_setitem_def putenv_ok_def
           split: option.splits)

lemma load_lines_accepted:
  "\<forall>raw \<in> set raws. accepted raw \<Longrightarrow> fst (load_lines raws w) = Inr ()"
proof (induction raws arbitrary: w)
  case Nil
  then show ?case by simp
next
  case (Cons raw raws)
  obtain r w' where step: "load_line raw w = (r, w')" by (cases "load_line raw w")
  then have "r = Inr ()" using load_line_accepted [of raw w] Cons.prems by simp
  then show ?case using step Cons.IH [of w'] Cons.prems by simp
qed

lemma load_lines_append:
  "load_lines (xs @ ys) w =
     (case load_lines xs w of (Inl e, w') \<Rightarrow> (Inl e, w') | (Inr _, w') \<Rightarrow> load_lines ys w')"
  by (induction xs arbitrary: w) (auto split: prod.splits sum.splits)

lemma load_line_stores:
  "parse_line raw = Some (k, v) \<Longrightarrow> putenv_ok k v \<Longrightarrow> environ w k = None \<Longrightarrow>
     load_line raw w = (Inr (), w\<lparr>environ := (environ w)(k \<mapsto> v)\<rparr>)"
  by (simp add: load_line_def environ_setitem_def putenv_ok_def domIff)

subsection \<open>The scan\<close>

lemma match_at_not_dollar: "c \<noteq> CHR ''$'' \<Longrightarrow> match_at (c # s) = None"
  by (simp add: match_at_def strip_prefix_def)

lemma match_at_append_Some:
  "match_at s = Some (g0, g1, rest) \<Longrightarrow> match_at (s @ y) = Some (g0, g1, rest @ y)"
  by (simp add: match_at_Some_iff)

lemma name_start_char: "name_start c \<Longrightarrow> name_char c"
  by (simp add: name_char_def)

lemma valid_name_chars: "valid_name n \<Longrightarrow> c \<in> set n \<Longrightarrow> name_char c"
  by (cases n) (auto simp: valid_name_def list_all_iff name_start_char)

lemma placeholder_tl_no_dollar: "valid_name n \<Longrightarrow> CHR ''$'' \<notin> set (tl (placeholder n))"
  by (auto simp: placeholder_def dest: valid_name_chars)

text \<open>
  A match has its only \<^verbatim>\<open>$\<close> at its start. So text that ends before a \<^verbatim>\<open>$\<close> is
  scanned as if nothing came after it: no match that starts in it reaches the \<^verbatim>\<open>$\<close>.
\<close>

lemma match_at_append_None:
  assumes "s \<noteq> []" and "match_at s = None"
  shows "match_at (s @ CHR ''$'' # x) = None"
proof (rule ccontr)
  assume "match_at (s @ CHR ''$'' # x) \<noteq> None"
  then obtain g0 g1 rest where "match_at (s @ CHR ''$'' # x) = Some (g0, g1, rest)"
    by auto
  then have v: "valid_name g1" and g0: "g0 = placeholder g1"
    and eq: "s @ CHR ''$'' # x = g0 @ rest"
    by (simp_all add: match_at_Some_iff)
  from eq obtain us
    where "s = g0 @ us \<or> (s @ us = g0 \<and> us \<noteq> [] \<and> us @ rest = CHR ''$'' # x)"
    unfolding append_eq_append_conv2 by (metis append_Nil2)
  then show False
  proof
    assume "s = g0 @ us"
    then have "match_at s = Some (g0, g1, us)" using v g0 by (simp add: match_at_Some_iff)
    then show False using assms(2) by simp
  next
    assume a: "s @ us = g0 \<and> us \<noteq> [] \<and> us @ rest = CHR ''$'' # x"
    then have "hd us = CHR ''$''" by (cases us) auto
    then have "CHR ''$'' \<in> set us" using a by (cases us) auto
    moreover have "set us \<subseteq> set (tl g0)" using a assms(1) by (cases s) auto
    ultimately show False using placeholder_tl_no_dollar [OF v] g0 by auto
  qed
qed

lemma re_sub_append_dollar:
  "y = CHR ''$'' # x \<Longrightarrow>
   re_sub (p @ y) w =
     (case re_sub p w of (o1, w1) \<Rightarrow> case re_sub y w1 of (o2, w2) \<Rightarrow> (o1 @ o2, w2))"
proof (induction p w rule: re_sub.induct)
  case (1 w)
  then show ?case by (simp split: prod.splits)
next
  case (2 c cs w)
  show ?case
  proof (cases "match_at (c # cs)")
    case None
    then have "match_at (c # cs @ y) = None"
      using match_at_append_None [of "c # cs" x] 2(3) by simp
    then show ?thesis using None 2(1) 2(3) by (simp split: prod.splits)
  next
    case (Some m)
    then obtain g0 g1 rest where m: "match_at (c # cs) = Some (g0, g1, rest)"
      by (cases m) auto
    then have my: "match_at (c # cs @ y) = Some (g0, g1, rest @ y)"
      using match_at_append_Some [of "c # cs" g0 g1 rest y] by simp
    obtain v w1 where rv: "replace_var (g0, g1) w = (v, w1)"
      by (cases "replace_var (g0, g1) w")
    have "re_sub (rest @ y) w1 =
      (case re_sub rest w1 of (o1, w1) \<Rightarrow> case re_sub y w1 of (o2, w2) \<Rightarrow> (o1 @ o2, w2))"
      using 2(2) [OF m refl refl refl rv [symmetric] 2(3)] .
    then show ?thesis using m my rv by (simp split: prod.splits)
  qed
qed

lemma re_sub_no_dollar:
  "CHR ''$'' \<notin> set x \<Longrightarrow>
   re_sub (x @ y) w = (case re_sub y w of (out, w') \<Rightarrow> (x @ out, w'))"
  by (induction x) (auto simp: match_at_not_dollar split: prod.splits)

lemma re_sub_placeholder:
  assumes "valid_name n"
  shows "re_sub (placeholder n @ post) w =
     (case replace_var (placeholder n, n) w of (v, w1) \<Rightarrow>
        case re_sub post w1 of (out, w2) \<Rightarrow> (v @ out, w2))"
proof -
  have m: "match_at (placeholder n @ post) = Some (placeholder n, n, post)"
    using assms by (simp add: match_at_Some_iff)
  obtain t where t: "placeholder n @ post = CHR ''$'' # t"
    by (simp add: placeholder_def)
  show ?thesis using m unfolding t by (simp split: prod.splits)
qed

lemma replace_var_effect:
  "replace_var (g0, g1) w =
     (case environ w g1 of None \<Rightarrow> g0 | Some v \<Rightarrow> v,
      w\<lparr>stderr := stderr w @ (case environ w g1 of None \<Rightarrow> [warning g1] | Some v \<Rightarrow> [])\<rparr>)"
  by (simp add: replace_var_def split: option.splits)

text \<open>
  Two runs on the same text from states with the same environment return the same
  text and add the same lines to the error stream, and change nothing else.
\<close>

lemma re_sub_two_worlds:
  "environ w' = environ w \<Longrightarrow>
   \<exists>out d. re_sub s w = (out, w\<lparr>stderr := stderr w @ d\<rparr>) \<and>
           re_sub s w' = (out, w'\<lparr>stderr := stderr w' @ d\<rparr>)"
proof (induction s w arbitrary: w' rule: re_sub.induct)
  case (1 w)
  then show ?case by (intro exI [of _ "[]"]) simp
next
  case (2 c cs w)
  show ?case
  proof (cases "match_at (c # cs)")
    case None
    obtain out d where "re_sub cs w = (out, w\<lparr>stderr := stderr w @ d\<rparr>)"
      "re_sub cs w' = (out, w'\<lparr>stderr := stderr w' @ d\<rparr>)"
      using 2(1) [OF None 2(3)] by blast
    then have "re_sub (c # cs) w = (c # out, w\<lparr>stderr := stderr w @ d\<rparr>)"
      "re_sub (c # cs) w' = (c # out, w'\<lparr>stderr := stderr w' @ d\<rparr>)"
      using None by simp_all
    then show ?thesis by blast
  next
    case (Some m)
    then obtain g0 g1 rest where m: "match_at (c # cs) = Some (g0, g1, rest)"
      by (cases m) auto
    define e where "e = (case environ w g1 of None \<Rightarrow> [warning g1] | Some v \<Rightarrow> [])"
    define v where "v = (case environ w g1 of None \<Rightarrow> g0 | Some v \<Rightarrow> v)"
    have rv: "replace_var (g0, g1) w = (v, w\<lparr>stderr := stderr w @ e\<rparr>)"
      and rv': "replace_var (g0, g1) w' = (v, w'\<lparr>stderr := stderr w' @ e\<rparr>)"
      using 2(3) by (simp_all add: replace_var_effect e_def v_def)
    let ?w1 = "w\<lparr>stderr := stderr w @ e\<rparr>" and ?w1' = "w'\<lparr>stderr := stderr w' @ e\<rparr>"
    have "environ ?w1' = environ ?w1" using 2(3) by simp
    from 2(2) [OF m refl refl refl rv [symmetric] this]
    obtain out d where d: "re_sub rest ?w1 = (out, ?w1\<lparr>stderr := stderr ?w1 @ d\<rparr>)"
      "re_sub rest ?w1' = (out, ?w1'\<lparr>stderr := stderr ?w1' @ d\<rparr>)"
      by blast
    have "re_sub (c # cs) w = (v @ out, w\<lparr>stderr := stderr w @ (e @ d)\<rparr>)"
      using m rv d(1) by simp
    moreover have "re_sub (c # cs) w' = (v @ out, w'\<lparr>stderr := stderr w' @ (e @ d)\<rparr>)"
      using m rv' d(2) by simp
    ultimately show ?thesis by blast
  qed
qed

lemma substitute_effect:
  "substitute t w = (rendered t w, w\<lparr>stderr := stderr w @ diagnostics t w\<rparr>)"
proof -
  obtain out d where d: "re_sub t w = (out, w\<lparr>stderr := stderr w @ d\<rparr>)"
    using re_sub_two_worlds [of w w t] by auto
  then show ?thesis by (simp add: diagnostics_def rendered_def substitute_def)
qed

lemma substitute_environ_only:
  assumes "environ w' = environ w"
  shows "rendered t w' = rendered t w \<and> diagnostics t w' = diagnostics t w"
proof -
  obtain out d where d: "re_sub t w = (out, w\<lparr>stderr := stderr w @ d\<rparr>)"
      "re_sub t w' = (out, w'\<lparr>stderr := stderr w' @ d\<rparr>)"
    using re_sub_two_worlds [OF assms, of t] by blast
  then show ?thesis by (simp add: diagnostics_def rendered_def substitute_def)
qed

lemma substitute_seq:
  assumes "re_sub t w =
     (case re_sub a w of (o1, w1) \<Rightarrow> case re_sub b w1 of (o2, w2) \<Rightarrow> (o1 @ o2, w2))"
  shows "rendered t w = rendered a w @ rendered b w \<and>
         diagnostics t w = diagnostics a w @ diagnostics b w"
proof -
  let ?w1 = "w\<lparr>stderr := stderr w @ diagnostics a w\<rparr>"
  have a: "re_sub a w = (rendered a w, ?w1)"
    using substitute_effect [of a w] by (simp add: substitute_def)
  have "environ ?w1 = environ w" by simp
  then have same: "rendered b ?w1 = rendered b w" "diagnostics b ?w1 = diagnostics b w"
    using substitute_environ_only [of ?w1 w b] by simp_all
  have b: "re_sub b ?w1 =
      (rendered b w, w\<lparr>stderr := stderr w @ diagnostics a w @ diagnostics b w\<rparr>)"
    using substitute_effect [of b ?w1] same by (simp add: substitute_def)
  have "re_sub t w = (rendered a w @ rendered b w,
                      w\<lparr>stderr := stderr w @ diagnostics a w @ diagnostics b w\<rparr>)"
    using assms a b by simp
  then show ?thesis by (simp add: rendered_def diagnostics_def substitute_def)
qed

lemma substitute_append_dollar:
  "rendered (p @ CHR ''$'' # x) w = rendered p w @ rendered (CHR ''$'' # x) w \<and>
   diagnostics (p @ CHR ''$'' # x) w = diagnostics p w @ diagnostics (CHR ''$'' # x) w"
  by (rule substitute_seq) (rule re_sub_append_dollar [OF refl])

lemma substitute_placeholder:
  assumes "valid_name n"
  shows "rendered (placeholder n @ post) w =
           (case environ w n of None \<Rightarrow> placeholder n | Some v \<Rightarrow> v) @ rendered post w \<and>
         diagnostics (placeholder n @ post) w =
           (case environ w n of None \<Rightarrow> [warning n] | Some v \<Rightarrow> []) @ diagnostics post w"
proof -
  let ?e = "case environ w n of None \<Rightarrow> [warning n] | Some v \<Rightarrow> []"
  let ?v = "case environ w n of None \<Rightarrow> placeholder n | Some v \<Rightarrow> v"
  let ?w1 = "w\<lparr>stderr := stderr w @ ?e\<rparr>"
  have "environ ?w1 = environ w" by simp
  then have same: "rendered post ?w1 = rendered post w"
    "diagnostics post ?w1 = diagnostics post w"
    using substitute_environ_only [of ?w1 w post] by simp_all
  have "re_sub post ?w1 =
      (rendered post w, w\<lparr>stderr := stderr w @ ?e @ diagnostics post w\<rparr>)"
    using substitute_effect [of post ?w1] same by (simp add: substitute_def)
  then have "re_sub (placeholder n @ post) w =
      (?v @ rendered post w, w\<lparr>stderr := stderr w @ ?e @ diagnostics post w\<rparr>)"
    using re_sub_placeholder [OF assms, of post w] by (simp add: replace_var_effect)
  then show ?thesis by (simp add: rendered_def diagnostics_def substitute_def)
qed

lemma placeholder_Cons: "placeholder n @ post = CHR ''$'' # ''{{'' @ n @ ''}}'' @ post"
  by (simp add: placeholder_def)

lemma substitute_around_placeholder:
  assumes "valid_name n"
  shows "rendered (pre @ placeholder n @ post) w =
           rendered pre w @ (case environ w n of None \<Rightarrow> placeholder n | Some v \<Rightarrow> v) @
           rendered post w \<and>
         diagnostics (pre @ placeholder n @ post) w =
           diagnostics pre w @ (case environ w n of None \<Rightarrow> [warning n] | Some v \<Rightarrow> []) @
           diagnostics post w"
  using substitute_append_dollar [of pre "''{{'' @ n @ ''}}'' @ post" w]
        substitute_placeholder [OF assms, of post w]
  by (simp add: placeholder_Cons)

lemma first_occurrence_unique:
  assumes "x \<notin> set a" and "x \<notin> set c" and "a @ x # b = c @ x # d"
  shows "a = c"
proof -
  have "takeWhile (\<lambda>y. y \<noteq> x) (a @ x # b) = a" "takeWhile (\<lambda>y. y \<noteq> x) (c @ x # d) = c"
    using assms(1,2) by (auto simp: takeWhile_tail takeWhile_eq_all_conv)
  then show ?thesis using assms(3) by simp
qed

lemma malformed_no_match:
  assumes "\<not> valid_name body" and "CHR ''}'' \<notin> set body"
  shows "match_at (''${{'' @ body @ ''}}'' @ post) = None"
proof (rule ccontr)
  assume "match_at (''${{'' @ body @ ''}}'' @ post) \<noteq> None"
  then obtain g0 g1 rest
    where "match_at (''${{'' @ body @ ''}}'' @ post) = Some (g0, g1, rest)"
    by auto
  then have v: "valid_name g1"
    and eq: "body @ CHR ''}'' # (CHR ''}'' # post) = g1 @ CHR ''}'' # (CHR ''}'' # rest)"
    by (auto simp: match_at_Some_iff placeholder_def)
  have "CHR ''}'' \<notin> set g1" using valid_name_chars [OF v, of "CHR ''}''"] by auto
  then have "body = g1" using eq assms(2) first_occurrence_unique by metis
  then show False using v assms(1) by simp
qed

text \<open>\<^const>\<open>has_match\<close> holds exactly of the texts that contain a placeholder.\<close>

lemma has_match_iff:
  "has_match t \<longleftrightarrow> (\<exists>pre n post. valid_name n \<and> t = pre @ ''${{'' @ n @ ''}}'' @ post)"
proof (induction t)
  case Nil
  then show ?case by simp
next
  case (Cons c cs)
  show ?case
  proof
    assume "has_match (c # cs)"
    then consider "match_at (c # cs) \<noteq> None" | "has_match cs" by auto
    then show "\<exists>pre n post. valid_name n \<and> c # cs = pre @ ''${{'' @ n @ ''}}'' @ post"
    proof cases
      case 1
      then obtain g0 g1 rest where "match_at (c # cs) = Some (g0, g1, rest)" by auto
      then have "valid_name g1 \<and> c # cs = [] @ ''${{'' @ g1 @ ''}}'' @ rest"
        by (simp add: match_at_Some_iff placeholder_def)
      then show ?thesis by blast
    next
      case 2
      then obtain pre n post where "valid_name n" "cs = pre @ ''${{'' @ n @ ''}}'' @ post"
        using Cons.IH by blast
      then have "valid_name n \<and> c # cs = (c # pre) @ ''${{'' @ n @ ''}}'' @ post" by simp
      then show ?thesis by blast
    qed
  next
    assume "\<exists>pre n post. valid_name n \<and> c # cs = pre @ ''${{'' @ n @ ''}}'' @ post"
    then obtain pre n post
      where n: "valid_name n" and eq: "c # cs = pre @ ''${{'' @ n @ ''}}'' @ post"
      by blast
    show "has_match (c # cs)"
    proof (cases pre)
      case Nil
      then have "match_at (c # cs) = Some (placeholder n, n, post)"
        using n eq by (simp add: match_at_Some_iff placeholder_def)
      then show ?thesis by simp
    next
      case (Cons a pre')
      then have "cs = pre' @ ''${{'' @ n @ ''}}'' @ post" using eq by simp
      then have "has_match cs" using Cons.IH n by blast
      then show ?thesis by simp
    qed
  qed
qed

lemma re_sub_no_match: "\<not> has_match t \<Longrightarrow> re_sub t w = (t, w)"
proof (induction t)
  case Nil
  then show ?case by simp
next
  case (Cons c cs)
  from Cons.prems have "match_at (c # cs) = None"
    by (cases "match_at (c # cs)") auto
  moreover have "re_sub cs w = (cs, w)" using Cons by simp
  ultimately show ?case by simp
qed

lemma no_dollar_no_match: "CHR ''$'' \<notin> set x \<Longrightarrow> \<not> has_match x"
  by (induction x) (auto simp: match_at_not_dollar)

text \<open>
  A match ends with the first \<^verbatim>\<open>}}\<close> after its start. So a match that starts in a
  text that ends with \<^verbatim>\<open>}}\<close> also ends in it, whatever comes after the text.
\<close>

lemma length_takeWhile_stop:
  "\<not> P x \<Longrightarrow> length (takeWhile P (u @ x # r)) \<le> length u"
  by (induction u) auto

lemma match_inside_closed:
  assumes "match_at (u @ ''}}'' @ post) = Some (g0, g1, rest)"
  shows "\<exists>r. u @ ''}}'' = g0 @ r"
proof -
  let ?P = "\<lambda>c. c \<noteq> CHR ''}''"
  from assms have v: "valid_name g1" and g0: "g0 = ''${{'' @ g1 @ ''}}''"
    and eq: "u @ ''}}'' @ post = g0 @ rest"
    by (simp_all add: match_at_Some_iff placeholder_def)
  have "CHR ''}'' \<notin> set g1" using valid_name_chars [OF v, of "CHR ''}''"] by auto
  then have "takeWhile ?P (g0 @ rest) = ''${{'' @ g1"
    unfolding g0 by (auto simp: takeWhile_tail takeWhile_eq_all_conv)
  moreover have "length (takeWhile ?P (u @ ''}}'' @ post)) \<le> length u"
    using length_takeWhile_stop [of ?P "CHR ''}''" u "CHR ''}'' # post"] by simp
  ultimately have len: "length g0 \<le> length (u @ ''}}'')" using eq g0 by simp
  define t where "t = u @ ''}}''"
  have "t @ post = g0 @ rest" using eq by (simp add: t_def)
  then obtain us where "t = g0 @ us \<or> t @ us = g0"
    unfolding append_eq_append_conv2 by blast
  then have "\<exists>r. t = g0 @ r"
  proof
    assume "t = g0 @ us"
    then show ?thesis by blast
  next
    assume "t @ us = g0"
    then have "us = []" using len by (auto simp: t_def)
    then have "t = g0 @ []" using \<open>t @ us = g0\<close> by simp
    then show ?thesis by blast
  qed
  then show ?thesis by (simp add: t_def)
qed

lemma re_sub_closed:
  "\<not> has_match (s @ ''}}'') \<Longrightarrow>
   re_sub (s @ ''}}'' @ post) w =
     (case re_sub post w of (out, w') \<Rightarrow> (s @ ''}}'' @ out, w'))"
proof (induction s)
  case Nil
  then show ?case by (simp add: match_at_not_dollar split: prod.splits)
next
  case (Cons c s)
  from Cons.prems have none: "match_at ((c # s) @ ''}}'') = None"
    and rest: "\<not> has_match (s @ ''}}'')"
    by (cases "match_at ((c # s) @ ''}}'')"; simp)+
  have "match_at ((c # s) @ ''}}'' @ post) = None"
  proof (rule ccontr)
    assume "match_at ((c # s) @ ''}}'' @ post) \<noteq> None"
    then obtain g0 g1 r where m: "match_at ((c # s) @ ''}}'' @ post) = Some (g0, g1, r)"
      by auto
    then obtain r' where "(c # s) @ ''}}'' = g0 @ r'" using match_inside_closed by blast
    moreover have "valid_name g1" "g0 = placeholder g1"
      using m by (simp_all add: match_at_Some_iff)
    ultimately have "match_at ((c # s) @ ''}}'') = Some (g0, g1, r')"
      by (simp add: match_at_Some_iff)
    then show False using none by simp
  qed
  then show ?case using Cons.IH [OF rest] by (simp split: prod.splits)
qed

lemma substitute_closed:
  assumes "\<not> has_match (s @ ''}}'')"
  shows "rendered (s @ ''}}'' @ post) w = s @ ''}}'' @ rendered post w \<and>
         diagnostics (s @ ''}}'' @ post) w = diagnostics post w"
proof -
  have "re_sub post w = (rendered post w, w\<lparr>stderr := stderr w @ diagnostics post w\<rparr>)"
    using substitute_effect [of post w] by (simp add: substitute_def)
  then have "re_sub (s @ ''}}'' @ post) w =
      (s @ ''}}'' @ rendered post w, w\<lparr>stderr := stderr w @ diagnostics post w\<rparr>)"
    using re_sub_closed [OF assms, of post w] by simp
  then show ?thesis by (simp add: rendered_def diagnostics_def substitute_def)
qed

text \<open>
  The plain case of a token that holds no placeholder: its body is not a name and has
  no \<^verbatim>\<open>$\<close> and no \<^verbatim>\<open>}\<close>.
\<close>

lemma malformed_name_token:
  assumes "\<not> valid_name body" and "CHR ''$'' \<notin> set body" and "CHR ''}'' \<notin> set body"
  shows "\<not> has_match (''${{'' @ body @ ''}}'')"
proof -
  have "match_at (''${{'' @ body @ ''}}'' @ []) = None"
    using assms(1,3) by (rule malformed_no_match)
  moreover have "\<not> has_match (''{{'' @ body @ ''}}'')"
    using assms(2) by (intro no_dollar_no_match) simp
  ultimately show ?thesis by simp
qed

subsection \<open>The scenarios of the specification\<close>

lemma scenario_output_paths:
  "derive_output_path None ''nginx-values-template.conf'' = ''nginx-values.conf''"
  "derive_output_path None ''app.template.yaml'' = ''app.yaml''"
  "derive_output_path None ''plain.conf'' = ''plain.conf''"
  "derive_output_path (Some ''nginx.conf'') ''nginx-values-template.conf'' = ''nginx.conf''"
  by (simp_all add: derive_output_path_def)

lemma scenario_resolved:
  "render_template ''t.template'' None (Some ''.env'')
     \<lparr>environ = [''HOST'' \<mapsto> ''localhost'', ''PORT'' \<mapsto> ''8080''],
      files = [''t.template'' \<mapsto> ''server ${{HOST}}:${{PORT}}''],
      writable = (\<lambda>path. path = ''t''), stdout = [], stderr = []\<rparr> =
   (Inr ''t'',
    \<lparr>environ = [''HOST'' \<mapsto> ''localhost'', ''PORT'' \<mapsto> ''8080''],
     files = [''t.template'' \<mapsto> ''server ${{HOST}}:${{PORT}}'', ''t'' \<mapsto> ''server localhost:8080''],
     writable = (\<lambda>path. path = ''t''),
     stdout = [''Template rendered: t.template -> t''], stderr = []\<rparr>)"
  by (simp add: render_template_def load_supplementary_variables_def derive_output_path_def
        scan_defs Let_def)

lemma scenario_missing:
  "render_template ''t.template'' None None
     \<lparr>environ = Map.empty, files = [''t.template'' \<mapsto> ''key=${{MISSING}}''],
      writable = (\<lambda>path. path = ''t''), stdout = [], stderr = []\<rparr> =
   (Inr ''t'',
    \<lparr>environ = Map.empty,
     files = [''t.template'' \<mapsto> ''key=${{MISSING}}'', ''t'' \<mapsto> ''key=${{MISSING}}''],
     writable = (\<lambda>path. path = ''t''),
     stdout = [''Template rendered: t.template -> t''],
     stderr = [''Warning: Environment variable 'MISSING' not found, leaving as-is'']\<rparr>)"
  by (simp add: render_template_def load_supplementary_variables_def derive_output_path_def
        scan_defs warning_def Let_def)

text \<open>
  An output path in a directory that does not exist, and a template that does not
  exist: both runs end with the exception, and no file is written.
\<close>

lemma scenario_unwritable:
  "fst (render_template ''t.template'' (Some ''missing/out.conf'') None
     \<lparr>environ = Map.empty, files = [''t.template'' \<mapsto> ''a''],
      writable = (\<lambda>path. path = ''t''), stdout = [], stderr = []\<rparr>) = Inl OSError"
  "fst (render_template ''absent.template'' None None
     \<lparr>environ = Map.empty, files = [''t.template'' \<mapsto> ''a''],
      writable = (\<lambda>path. path = ''t''), stdout = [], stderr = []\<rparr>) = Inl OSError"
  by (simp_all add: render_template_def load_supplementary_variables_def
        derive_output_path_def scan_defs Let_def)

text \<open>A line with an empty key and a line with a null character end the loop.\<close>

lemma scenario_refused_pairs:
  "fst (load_lines [''=x'', ''A=1''] w_empty) = Inl OSError"
  "environ (snd (load_lines [''=x'', ''A=1''] w_empty)) ''A'' = None"
  "fst (load_lines [''A=1'', ''B='' @ [CHR 0x00]] w_empty) = Inl ValueError"
  "environ (snd (load_lines [''A=1'', ''B='' @ [CHR 0x00]] w_empty)) ''A'' = Some ''1''"
  by (simp_all add: w_empty_def load_defs)

section \<open>The claims\<close>

subsection \<open>C1: the derived output path\<close>

text \<open>
  C1 says that, with no output path given, a path that holds the marker \<^verbatim>\<open>-template\<close>
  (or, failing that, \<^verbatim>\<open>.template\<close>) more than once loses only its first occurrence.
  The script calls \<^verbatim>\<open>str.replace\<close> without a count, which removes every
  occurrence: \<^verbatim>\<open>site-template-template.conf\<close> becomes \<^verbatim>\<open>site.conf\<close>, where the
  claim expects \<^verbatim>\<open>site-template.conf\<close>.
\<close>

theorem derive_output_path_first_only_counterexample:
  "derive_output_path None ''site-template-template.conf'' = ''site.conf'' \<and>
   remove_first ''-template'' ''site-template-template.conf'' = ''site-template.conf'' \<and>
   derive_output_path None ''site-template-template.conf'' \<noteq>
     remove_first ''-template'' ''site-template-template.conf''"
  by (simp add: derive_output_path_def)

text \<open>
  C1 as amended: with no output path given, every occurrence of the marker is
  removed. A path made of segments that do not hold the marker, joined by the marker,
  is mapped to the segments put together. The marker is \<^verbatim>\<open>-template\<close>, or
  \<^verbatim>\<open>.template\<close> for a path that does not hold \<^verbatim>\<open>-template\<close>.
\<close>

theorem derive_output_path_removes_all:
  assumes "m = ''-template'' \<or> m = ''.template'' \<and> \<not> str_contains ''-template'' (join m segs)"
    and "2 \<le> length segs"
    and "\<forall>s \<in> set segs. \<not> str_contains m s"
  shows "derive_output_path None (join m segs) = concat segs"
proof -
  from assms(1) show ?thesis
  proof
    assume m: "m = ''-template''"
    then have "str_contains ''-template'' (join m segs)"
      using join_contains [OF assms(2)] by simp
    moreover have "str_replace ''-template'' [] (join ''-template'' segs) = concat segs"
      using assms(3) m by (intro str_replace_join) simp_all
    ultimately show ?thesis using m by (simp add: derive_output_path_def)
  next
    assume "m = ''.template'' \<and> \<not> str_contains ''-template'' (join m segs)"
    then have m: "m = ''.template''"
      and n: "\<not> str_contains ''-template'' (join ''.template'' segs)"
      by auto
    have "str_replace ''.template'' [] (join ''.template'' segs) = concat segs"
      using assms(3) m by (intro str_replace_join) simp_all
    then show ?thesis using m n by (simp add: derive_output_path_def)
  qed
qed

text \<open>Two paths with the marker twice: both occurrences go.\<close>

theorem derive_output_path_removes_all_witness:
  "derive_output_path None ''a-template-b-template.conf'' = ''a-b.conf'' \<and>
   derive_output_path None ''a.template.template'' = ''a''"
  using derive_output_path_removes_all [of "''-template''" "[''a'', ''-b'', ''.conf'']"]
        derive_output_path_removes_all [of "''.template''" "[''a'', [], []]"]
  by simp

subsection \<open>C2: a key that occurs twice in the file\<close>

text \<open>
  C2 says that of two lines with the same key, a key the environment does not hold,
  the last one sets the value. The script stores a key only when the environment does
  not hold it, so the first line stores the key and the second line is passed over.
\<close>

theorem load_lines_last_occurrence_counterexample:
  "environ w_empty ''K'' = None \<and>
   environ (snd (load_lines [''K=1'', ''K=2''] w_empty)) ''K'' = Some ''1'' \<and>
   environ (snd (load_lines [''K=1'', ''K=2''] w_empty)) ''K'' \<noteq> Some ''2''"
  by (simp add: w_empty_def load_defs)

text \<open>
  C2 as amended: for a key that the environment does not hold, the first line of the
  file with that key sets its value, whatever lines follow, provided the loop gets
  that far: the lines before it are accepted and so is its own pair. When the lines
  after it are accepted too, the loop ends without an exception.
\<close>

theorem load_lines_first_occurrence_wins:
  assumes "environ w k = None"
    and "\<forall>l \<in> set pre. accepted l \<and> (\<forall>v'. parse_line l \<noteq> Some (k, v'))"
    and "parse_line raw = Some (k, v)" and "putenv_ok k v"
  shows "environ (snd (load_lines (pre @ raw # post) w)) k = Some v \<and>
         ((\<forall>l \<in> set post. accepted l) \<longrightarrow> fst (load_lines (pre @ raw # post) w) = Inr ())"
proof -
  let ?store = "\<lambda>w1. w1\<lparr>environ := (environ w1)(k \<mapsto> v)\<rparr>"
  obtain w1 where pre: "load_lines pre w = (Inr (), w1)"
    using load_lines_accepted [of pre w] assms(2) by (cases "load_lines pre w") auto
  have k1: "environ w1 k = None"
    using load_lines_other [of pre k w] pre assms(1,2) by simp
  have raw: "load_line raw w1 = (Inr (), ?store w1)"
    using load_line_stores [OF assms(3,4) k1] .
  have eq: "load_lines (pre @ raw # post) w = load_lines post (?store w1)"
    using pre raw by (simp add: load_lines_append)
  have "environ (snd (load_lines post (?store w1))) k = Some v"
    by (rule load_lines_keeps) simp
  moreover have "fst (load_lines post (?store w1)) = Inr ()" if "\<forall>l \<in> set post. accepted l"
    using load_lines_accepted [OF that] .
  ultimately show ?thesis using eq by simp
qed

text \<open>A comment, then the key twice: the first value stays.\<close>

theorem load_lines_first_occurrence_wins_witness:
  "environ w_empty ''K'' = None \<and> parse_line ''K=1'' = Some (''K'', ''1'') \<and>
   putenv_ok ''K'' ''1'' \<and>
   environ (snd (load_lines [''# c'', ''K=1'', ''K=2''] w_empty)) ''K'' = Some ''1'' \<and>
   fst (load_lines [''# c'', ''K=1'', ''K=2''] w_empty) = Inr ()"
  using load_lines_first_occurrence_wins
          [of w_empty "''K''" "[''# c'']" "''K=1''" "''1''" "[''K=2'']"]
  by (simp add: w_empty_def load_defs)

subsection \<open>C3: the environment comes first\<close>

text \<open>
  C3: a key that the environment holds before the file is loaded keeps its value,
  whatever the file says about it, and whether or not the loading ends with an
  exception.
\<close>

theorem load_keeps_existing:
  "environ w k = Some v \<Longrightarrow>
     environ (snd (load_supplementary_variables env_file w)) k = Some v"
  by (auto simp: load_supplementary_variables_def load_lines_keeps split: option.splits)

text \<open>\<^verbatim>\<open>PORT\<close> is set before; the file's \<^verbatim>\<open>PORT=1\<close> is passed over, its \<^verbatim>\<open>NAME\<close> is stored.\<close>

theorem load_keeps_existing_witness:
  "environ w_demo ''PORT'' = Some ''8080'' \<and>
   environ (snd (load_supplementary_variables (Some ''.env'') w_demo)) ''PORT'' = Some ''8080'' \<and>
   environ (snd (load_supplementary_variables (Some ''.env'') w_demo)) ''NAME'' = Some ''a=b''"
  using load_keeps_existing [of w_demo "''PORT''" "''8080''" "Some ''.env''"]
  by (simp add: w_demo_def load_defs)

subsection \<open>C4: a placeholder without a value\<close>

text \<open>
  C4: where the name of a placeholder has no entry in the environment, the placeholder
  stays as it is at its place in the output, and one line is added to the error
  stream: the warning that the environment variable of that name was not found, with
  the name between quotation marks. The line comes after the warnings of the text
  before the placeholder and before those of the text after it, and the text after it
  is substituted as usual. \<open>substitute\<close> has no exception to raise: it returns for every
  text.
\<close>

theorem missing_variable_left_verbatim:
  assumes "valid_name n" and "environ w n = None"
  shows "rendered (pre @ ''${{'' @ n @ ''}}'' @ post) w =
           rendered pre w @ ''${{'' @ n @ ''}}'' @ rendered post w \<and>
         diagnostics (pre @ ''${{'' @ n @ ''}}'' @ post) w =
           diagnostics pre w @
           [''Warning: Environment variable '' @ [CHR 0x27] @ n @ [CHR 0x27] @
            '' not found, leaving as-is''] @
           diagnostics post w"
  using substitute_around_placeholder [OF assms(1), of pre post w] assms(2)
  by (simp add: placeholder_def warning_def)

text \<open>One missing variable between two texts: the output is the template, the error
  stream gains the one line that names the variable.\<close>

theorem missing_variable_left_verbatim_witness:
  "valid_name ''MISSING'' \<and> environ w_demo ''MISSING'' = None \<and>
   rendered ''key=${{MISSING}};'' w_demo = ''key=${{MISSING}};'' \<and>
   diagnostics ''key=${{MISSING}};'' w_demo =
     [''Warning: Environment variable 'MISSING' not found, leaving as-is''] \<and>
   stderr (snd (substitute ''key=${{MISSING}};'' w_demo)) =
     [''earlier'', ''Warning: Environment variable 'MISSING' not found, leaving as-is'']"
  using missing_variable_left_verbatim [of "''MISSING''" w_demo "''key=''" "'';''"]
  by (simp add: scan_defs w_demo_def)

subsection \<open>C5: a placeholder with a value\<close>

text \<open>
  C5: where the name of a placeholder has a value in the environment, the whole
  placeholder, delimiters included, is replaced by that value as it is, at every place
  where it occurs; the value is not scanned again, and no warning is added for it.
\<close>

theorem resolved_variable_replaced_once:
  assumes "valid_name n" and "environ w n = Some v"
  shows "rendered (pre @ ''${{'' @ n @ ''}}'' @ post) w =
           rendered pre w @ v @ rendered post w \<and>
         diagnostics (pre @ ''${{'' @ n @ ''}}'' @ post) w =
           diagnostics pre w @ diagnostics post w"
  using substitute_around_placeholder [OF assms(1), of pre post w] assms(2)
  by (simp add: placeholder_def)

text \<open>
  The value of \<^verbatim>\<open>HOST\<close> is itself the text of a placeholder; it is put in twice and
  stays.
\<close>

theorem resolved_variable_replaced_once_witness:
  "valid_name ''HOST'' \<and> environ w_demo ''HOST'' = Some ''${{PORT}}'' \<and>
   rendered ''${{HOST}}:${{HOST}}:${{PORT}}'' w_demo = ''${{PORT}}:${{PORT}}:8080'' \<and>
   diagnostics ''${{HOST}}:${{HOST}}:${{PORT}}'' w_demo = []"
  using resolved_variable_replaced_once
          [of "''HOST''" w_demo "''${{PORT}}''" "[]" "'':${{HOST}}:${{PORT}}''"]
  by (simp add: scan_defs w_demo_def)

subsection \<open>C6: the first separator\<close>

text \<open>
  C6: a line that, stripped, is not empty, is not a comment and holds a \<^verbatim>\<open>=\<close> is cut
  at its first \<^verbatim>\<open>=\<close>: the key is the text before it and holds no \<^verbatim>\<open>=\<close>, the value is
  all that follows, further \<^verbatim>\<open>=\<close> included.
\<close>

theorem parse_line_first_separator:
  assumes "strip raw \<noteq> []" and "\<not> prefix ''#'' (strip raw)" and "CHR ''='' \<in> set raw"
  shows "\<exists>key value. parse_line raw = Some (key, value) \<and>
           strip raw = key @ ''='' @ value \<and> CHR ''='' \<notin> set key"
proof -
  let ?t = "strip raw"
  let ?P = "\<lambda>c. c \<noteq> CHR ''=''"
  have mem: "CHR ''='' \<in> set ?t"
    using assms(3) by (rule strip_keeps) (simp add: isspace_def)
  then have p: "parse_line raw = Some (takeWhile ?P ?t, drop 1 (dropWhile ?P ?t))"
    using assms(1,2) by (simp add: parse_line_def split1_def Let_def)
  have "dropWhile ?P ?t \<noteq> []" using mem by auto
  then obtain d ds where d: "dropWhile ?P ?t = d # ds" by (cases "dropWhile ?P ?t") auto
  then have "d = CHR ''=''" using hd_dropWhile [of ?P ?t] by auto
  then have "?t = takeWhile ?P ?t @ ''='' @ drop 1 (dropWhile ?P ?t)"
    using takeWhile_dropWhile_id [of ?P ?t] d by simp
  moreover have "CHR ''='' \<notin> set (takeWhile ?P ?t)"
    by (auto dest: set_takeWhileD)
  ultimately show ?thesis using p by blast
qed

theorem parse_line_first_separator_witness:
  "strip ''KEY=a=b=c'' \<noteq> [] \<and> \<not> prefix ''#'' (strip ''KEY=a=b=c'') \<and>
   CHR ''='' \<in> set ''KEY=a=b=c'' \<and>
   parse_line ''KEY=a=b=c'' = Some (''KEY'', ''a=b=c'')"
  using parse_line_first_separator [of "''KEY=a=b=c''"]
  by (simp add: parse_line_def strip_def isspace_def split1_def)

subsection \<open>C7: text that only looks like a placeholder\<close>

text \<open>
  C7 says that every token that is not a well-formed placeholder is copied to the
  output as it is. A token is the delimiters \<^verbatim>\<open>${{\<close> and \<^verbatim>\<open>}}\<close> around a body. The
  body of \<^verbatim>\<open>${{x${{PORT}}}}\<close> is \<^verbatim>\<open>x${{PORT}}\<close>, which is not a name, yet the scan finds
  the placeholder \<^verbatim>\<open>${{PORT}}\<close> inside the token and replaces it: the token is not
  copied as it is.
\<close>

theorem malformed_token_nested_counterexample:
  "\<not> valid_name ''x${{PORT}}'' \<and> environ w_demo ''PORT'' = Some ''8080'' \<and>
   rendered ''${{x${{PORT}}}}'' w_demo = ''${{x8080}}'' \<and>
   rendered ''${{x${{PORT}}}}'' w_demo \<noteq> ''${{x${{PORT}}}}''"
  by (simp add: scan_defs w_demo_def)

text \<open>
  C7 as amended: a token that is not a well-formed placeholder and holds none, such
  as \<^verbatim>\<open>${{foo}}\<close>, \<^verbatim>\<open>${{ NAME }}\<close> or \<^verbatim>\<open>${{1X}}\<close>, is copied to the output as it is,
  with no warning, and the text around it is substituted as usual.
\<close>

theorem malformed_token_left_verbatim:
  assumes "\<not> (\<exists>a n b. valid_name n \<and> ''${{'' @ body @ ''}}'' = a @ ''${{'' @ n @ ''}}'' @ b)"
  shows "rendered (pre @ ''${{'' @ body @ ''}}'' @ post) w =
           rendered pre w @ ''${{'' @ body @ ''}}'' @ rendered post w \<and>
         diagnostics (pre @ ''${{'' @ body @ ''}}'' @ post) w =
           diagnostics pre w @ diagnostics post w"
proof -
  have "\<not> has_match ((''${{'' @ body) @ ''}}'')"
    using assms unfolding has_match_iff by simp
  from substitute_closed [OF this, of post w]
  show ?thesis
    using substitute_append_dollar [of pre "''{{'' @ body @ ''}}'' @ post" w] by simp
qed

text \<open>The three tokens of the claim, and one with delimiter characters in its body.\<close>

theorem malformed_token_left_verbatim_witness:
  "\<not> has_match ''${{foo}}'' \<and> \<not> has_match ''${{ NAME }}'' \<and> \<not> has_match ''${{1X}}'' \<and>
   \<not> has_match ''${{a$b}c}}'' \<and>
   rendered ''a ${{foo}} ${{ NAME }} ${{1X}} ${{a$b}c}} ${{PORT}}'' w_demo =
     ''a ${{foo}} ${{ NAME }} ${{1X}} ${{a$b}c}} 8080'' \<and>
   diagnostics ''a ${{foo}} ${{ NAME }} ${{1X}} ${{a$b}c}} ${{PORT}}'' w_demo = []"
proof -
  have m: "\<not> has_match ''${{foo}}''"
    by (simp add: match_at_def strip_prefix_def name_start_def)
  then have h: "\<not> (\<exists>a n b. valid_name n \<and>
      ''${{'' @ ''foo'' @ ''}}'' = a @ ''${{'' @ n @ ''}}'' @ b)"
    unfolding has_match_iff by simp
  show ?thesis
    using malformed_token_left_verbatim
            [OF h, of "''a ''" "'' ${{ NAME }} ${{1X}} ${{a$b}c}} ${{PORT}}''" w_demo]
    by (simp add: scan_defs w_demo_def)
qed

subsection \<open>C8: text without a placeholder\<close>

text \<open>
  C8: a text in which the pattern matches nowhere, that is, a text with no part of the
  form \<^verbatim>\<open>${{NAME}}\<close> for a name \<^verbatim>\<open>NAME\<close>, is returned as it is, and the state is left
  as it was.
\<close>

theorem substitute_identity_without_placeholder:
  assumes "\<not> (\<exists>pre n post. valid_name n \<and> t = pre @ ''${{'' @ n @ ''}}'' @ post)"
  shows "substitute t w = (t, w)"
  using assms re_sub_no_match [of t w] by (simp add: has_match_iff substitute_def)

theorem substitute_identity_without_placeholder_witness:
  "\<not> has_match ''a ${{x}} $ {{X}}'' \<and>
   substitute ''a ${{x}} $ {{X}}'' w_demo = (''a ${{x}} $ {{X}}'', w_demo)"
proof -
  have m: "\<not> has_match ''a ${{x}} $ {{X}}''"
    by (simp add: match_at_def strip_prefix_def name_start_def)
  then have h: "\<not> (\<exists>pre n post. valid_name n \<and>
      ''a ${{x}} $ {{X}}'' = pre @ ''${{'' @ n @ ''}}'' @ post)"
    unfolding has_match_iff .
  show ?thesis using m substitute_identity_without_placeholder [OF h, of w_demo] by simp
qed

subsection \<open>C9: one result\<close>

text \<open>
  C9: the text that \<open>substitute\<close> returns depends on the template and the environment
  only: from two states with the same environment the same text is returned and the
  same lines are added to the error stream. Nothing else of the state changes: not
  the environment, not the files, not the standard output.
\<close>

theorem substitute_deterministic:
  assumes "environ w1 = environ w2"
  shows "fst (substitute t w1) = fst (substitute t w2) \<and>
         (\<exists>d. snd (substitute t w1) = w1\<lparr>stderr := stderr w1 @ d\<rparr> \<and>
              snd (substitute t w2) = w2\<lparr>stderr := stderr w2 @ d\<rparr>)"
proof -
  obtain out d where "re_sub t w2 = (out, w2\<lparr>stderr := stderr w2 @ d\<rparr>)"
    "re_sub t w1 = (out, w1\<lparr>stderr := stderr w1 @ d\<rparr>)"
    using re_sub_two_worlds [OF assms, of t] by blast
  then show ?thesis by (auto simp: substitute_def)
qed

text \<open>Two states that differ in their output streams only.\<close>

theorem substitute_deterministic_witness:
  "environ (w_demo\<lparr>stdout := [''x''], stderr := []\<rparr>) = environ w_demo \<and>
   fst (substitute ''${{A}}:${{PORT}}'' (w_demo\<lparr>stdout := [''x''], stderr := []\<rparr>)) =
     fst (substitute ''${{A}}:${{PORT}}'' w_demo) \<and>
   snd (substitute ''${{A}}:${{PORT}}'' w_demo) =
     w_demo\<lparr>stderr := stderr w_demo @ [warning ''A'']\<rparr>"
  using substitute_deterministic
          [of "w_demo\<lparr>stdout := [''x''], stderr := []\<rparr>" w_demo "''${{A}}:${{PORT}}''"]
  by (simp add: scan_defs w_demo_def)

subsection \<open>C10: a line without a separator\<close>

text \<open>
  C10: a line that, stripped, is not empty and is not a comment, and that holds no
  \<^verbatim>\<open>=\<close>, is passed over: the step returns without an exception and leaves the state,
  the environment and both streams, as it was; the file without the line is loaded as
  the file with it.
\<close>

theorem line_without_separator_skipped:
  assumes "strip raw \<noteq> []" and "\<not> prefix ''#'' (strip raw)" and "CHR ''='' \<notin> set raw"
  shows "load_line raw w = (Inr (), w) \<and>
         load_lines (pre @ raw # post) w = load_lines (pre @ post) w"
proof -
  have "CHR ''='' \<notin> set (strip raw)" using assms(3) set_strip [of raw] by auto
  then have "parse_line raw = None" by (simp add: parse_line_def)
  then have one: "load_line raw w' = (Inr (), w')" for w'
    by (simp add: load_line_def)
  then have "load_lines (raw # post) w' = load_lines post w'" for w'
    by simp
  then have "load_lines (pre @ raw # post) w = load_lines (pre @ post) w"
    by (simp add: load_lines_append split: prod.splits sum.splits)
  then show ?thesis using one by simp
qed

theorem line_without_separator_skipped_witness:
  "strip ''  export PATH  '' = ''export PATH'' \<and>
   load_line ''  export PATH  '' w_demo = (Inr (), w_demo) \<and>
   load_lines [''A=1'', ''  export PATH  '', ''B=2''] w_demo = load_lines [''A=1'', ''B=2''] w_demo"
  using line_without_separator_skipped [of "''  export PATH  ''" w_demo "[''A=1'']" "[''B=2'']"]
  by (simp add: strip_def isspace_def)

end
